theory Spec2Isabelle
  imports Complex_Main "HOL-Library.Multiset"
begin

section \<open>The terrarium engine: data model\<close>

text \<open>
  The engine of \<^verbatim>\<open>terrarium.ts\<close> works on JavaScript objects that are shared by
  reference: organisms, the population array and the model object. They live in an explicit
  store, one typed heap per kind of object, each with its allocation counter. A reference
  is an address; reading an array out of range gives \<^verbatim>\<open>undefined\<close>, written \<open>None\<close>.
  Counters (\<^verbatim>\<open>populationSize\<close>, \<^verbatim>\<open>generation\<close>) are integers, measurements
  (\<^verbatim>\<open>mutationChance\<close>, fitness values) are reals. The one arithmetic operation the
  engine applies to a number it stores, \<^verbatim>\<open>generation++\<close>, is modelled with the rounding
  of a double (\<open>numberIncrement\<close> below); NaN and infinities are outside the model.
\<close>

type_synonym addr = nat

text \<open>\<^verbatim>\<open>interface Organism { genes: unknown; mutationChance: number; }\<close>\<close>

record 'g organism =
  genes :: 'g
  mutationChance :: real

text \<open>
  \<^verbatim>\<open>interface GeneticAlgorithmModel { populationSize; generation; population: Organism[] }\<close>;
  the field \<open>population\<close> holds the reference to the array object.
\<close>

record geneticAlgorithmModel =
  populationSize :: int
  generation :: int
  population :: addr

text \<open>
  What the collaborator's callbacks can write: the organism objects and the collaborator's
  own state \<open>user\<close> (random generator, counters, drawing surface).
\<close>

record ('g, 'u) collab =
  organisms :: "addr \<Rightarrow> 'g organism"
  nextOrganism :: addr
  user :: 'u

text \<open>The whole store: the collaborator's part and the objects the engine builds.\<close>

record ('g, 'u) world =
  collab :: "('g, 'u) collab"
  models :: "addr \<Rightarrow> geneticAlgorithmModel"
  arrays :: "addr \<Rightarrow> addr list"
  nextModel :: addr
  nextArray :: addr

text \<open>
  The constructor's function arguments. \<^verbatim>\<open>createOrganism\<close>, \<^verbatim>\<open>crossover\<close> and
  \<^verbatim>\<open>mutate\<close> run on the collaborator's part of the store and return a reference;
  \<^verbatim>\<open>crossover\<close> and \<^verbatim>\<open>mutate\<close> may be handed \<^verbatim>\<open>undefined\<close>.
  \<^verbatim>\<open>calculateFitness\<close>, \<^verbatim>\<open>shouldTerminate\<close> and \<^verbatim>\<open>shouldProgressGeneration\<close>
  only observe. \<^verbatim>\<open>stepFunction\<close> and a custom \<^verbatim>\<open>produceNextGeneration\<close> may change
  anything in the store, and they may call the engine's public methods while they run:
  they return the calls of \<^verbatim>\<open>play()\<close> and \<^verbatim>\<open>pause()\<close> they made, in order.
  The other callbacks are taken at the contract of the specification's section 4.3: they
  produce organisms or answer a question, and call no method of the engine.
  \<open>produceNextGeneration = None\<close> is the omitted argument.
\<close>

datatype control = CallPlay | CallPause

record ('g, 'u) callbacks =
  createOrganism :: "('g, 'u) collab \<Rightarrow> addr \<times> ('g, 'u) collab"
  stepFunction :: "addr \<Rightarrow> ('g, 'u) world \<Rightarrow> ('g, 'u) world \<times> control list"
  calculateFitness :: "addr \<Rightarrow> ('g, 'u) collab \<Rightarrow> real"
  crossover :: "addr option \<Rightarrow> addr option \<Rightarrow> ('g, 'u) collab \<Rightarrow> addr \<times> ('g, 'u) collab"
  mutate :: "addr option \<Rightarrow> ('g, 'u) collab \<Rightarrow> addr \<times> ('g, 'u) collab"
  shouldTerminate :: "addr \<Rightarrow> ('g, 'u) world \<Rightarrow> bool"
  shouldProgressGeneration :: "addr \<Rightarrow> ('g, 'u) world \<Rightarrow> bool"
  produceNextGeneration ::
    "(addr \<Rightarrow> ('g, 'u) world \<Rightarrow> addr \<times> ('g, 'u) world \<times> control list) option"

text \<open>
  The host's deferral primitives: \<^verbatim>\<open>requestAnimationFrame(cb)\<close> and
  \<^verbatim>\<open>setTimeout(cb, delay)\<close>. Every callback the engine hands to the host is
  \<^verbatim>\<open>() => this.step()\<close>, so a queued request is recorded by its kind alone.
\<close>

datatype request = AnimationFrame | Timeout int

text \<open>
  The engine object (\<open>model\<close>, \<open>isRunning\<close>) together with the host's queue of pending
  step requests and the store.
\<close>

record ('g, 'u) state =
  model :: addr
  isRunning :: bool
  pending :: "request list"
  world :: "('g, 'u) world"

section \<open>Numbers\<close>

text \<open>
  A JavaScript number is a double. Every integer of magnitude below \<open>2 ^ 53\<close> is one;
  from there on the doubles are the multiples of 2, then of 4, and so on. \<open>doubleSpacing\<close>
  is the distance between neighbouring doubles at a magnitude, and \<open>roundToDouble\<close> rounds
  an integer to the nearest double, a tie going to the neighbour with the even significand
  (IEEE 754). Magnitudes from \<open>2 ^ 1024\<close> on, where a double overflows to infinity, are
  outside the model.
\<close>

function doubleSpacing :: "int \<Rightarrow> int" where
  "doubleSpacing a = (if a < 2 ^ 53 then 1 else 2 * doubleSpacing (a div 2))"
  by pat_completeness auto
termination
  by (relation "measure nat") auto

definition roundToDouble :: "int \<Rightarrow> int" where
  "roundToDouble z =
     (let a = \<bar>z\<bar>;
          q = doubleSpacing a;
          d = a div q;
          r = a mod q;
          n = (if 2 * r < q then d * q
               else if q < 2 * r then (d + 1) * q
               else if even d then d * q else (d + 1) * q)
      in if z < 0 then - n else n)"

text \<open>\<^verbatim>\<open>x++\<close> on a number: the sum \<open>x + 1\<close>, rounded to a double.\<close>

definition numberIncrement :: "int \<Rightarrow> int" where
  "numberIncrement x = roundToDouble (x + 1)"

section \<open>Store primitives\<close>

definition newArray :: "addr list \<Rightarrow> ('g, 'u) world \<Rightarrow> addr \<times> ('g, 'u) world" where
  "newArray xs w =
     (nextArray w, w\<lparr>arrays := (arrays w)(nextArray w := xs), nextArray := Suc (nextArray w)\<rparr>)"

definition newModelObject ::
  "geneticAlgorithmModel \<Rightarrow> ('g, 'u) world \<Rightarrow> addr \<times> ('g, 'u) world" where
  "newModelObject mo w =
     (nextModel w, w\<lparr>models := (models w)(nextModel w := mo), nextModel := Suc (nextModel w)\<rparr>)"

definition modelUpdate ::
  "addr \<Rightarrow> (geneticAlgorithmModel \<Rightarrow> geneticAlgorithmModel) \<Rightarrow> ('g, 'u) world \<Rightarrow> ('g, 'u) world" where
  "modelUpdate m f w = w\<lparr>models := (models w)(m := f (models w m))\<rparr>"

definition arrayUpdate ::
  "addr \<Rightarrow> (addr list \<Rightarrow> addr list) \<Rightarrow> ('g, 'u) world \<Rightarrow> ('g, 'u) world" where
  "arrayUpdate a f w = w\<lparr>arrays := (arrays w)(a := f (arrays w a))\<rparr>"

text \<open>\<^verbatim>\<open>xs[i]\<close>: \<^verbatim>\<open>undefined\<close> out of range.\<close>

definition array_get :: "'a list \<Rightarrow> nat \<Rightarrow> 'a option" where
  "array_get xs i = (if i < length xs then Some (xs ! i) else None)"

text \<open>
  \<^verbatim>\<open>xs[i] = v\<close>: in range the element is replaced; at \<open>i = length xs\<close> JavaScript
  extends the array by one. A larger index would leave holes, which a list of references
  cannot hold; the engine's only indexed write runs over an array that already has
  \<^verbatim>\<open>populationSize\<close> elements (lemma \<open>mutateLoop_eq\<close>).
\<close>

definition array_set :: "'a list \<Rightarrow> nat \<Rightarrow> 'a \<Rightarrow> 'a list" where
  "array_set xs i v = (if i < length xs then xs[i := v] else xs @ [v])"

text \<open>
  \<^verbatim>\<open>Array.prototype.sort(compare)\<close>: a stable sort; \<open>a\<close> comes before \<open>b\<close> unless
  \<open>compare a b > 0\<close>. The algorithm is the host's choice, but for a consistent comparator
  the result of a stable sort is unique; insertion from the right computes it.
\<close>

fun insert_by :: "('a \<Rightarrow> 'a \<Rightarrow> real) \<Rightarrow> 'a \<Rightarrow> 'a list \<Rightarrow> 'a list" where
  "insert_by cmp x [] = [x]"
| "insert_by cmp x (y # ys) = (if cmp x y \<le> 0 then x # y # ys else y # insert_by cmp x ys)"

definition array_sort :: "('a \<Rightarrow> 'a \<Rightarrow> real) \<Rightarrow> 'a list \<Rightarrow> 'a list" where
  "array_sort cmp xs = foldr (insert_by cmp) xs []"

text \<open>
  \<^verbatim>\<open>structuredClone\<close> on the population: every organism object is copied into a fresh
  object (the gene payload is a value, so the copy shares nothing with the original); a
  reference met twice is cloned once, which is the memory map of the structured clone
  algorithm.
\<close>

fun cloneOrganisms ::
  "addr list \<Rightarrow> (addr \<Rightarrow> addr option) \<Rightarrow> ('g, 'u) collab \<Rightarrow> addr list \<times> ('g, 'u) collab" where
  "cloneOrganisms [] memo c = ([], c)"
| "cloneOrganisms (a # as) memo c =
     (case memo a of
        Some a' \<Rightarrow> (let (r, c') = cloneOrganisms as memo c in (a' # r, c'))
      | None \<Rightarrow>
          (let a' = nextOrganism c;
               c1 = c\<lparr>organisms := (organisms c)(a' := organisms c a), nextOrganism := Suc a'\<rparr>;
               (r, c') = cloneOrganisms as (memo(a \<mapsto> a')) c1
           in (a' # r, c')))"

text \<open>\<^verbatim>\<open>structuredClone(model)\<close>: a new model object, a new array, new organisms.\<close>

definition structuredClone :: "addr \<Rightarrow> ('g, 'u) world \<Rightarrow> addr \<times> ('g, 'u) world" where
  "structuredClone m w =
     (let (pop', c') = cloneOrganisms (arrays w (population (models w m))) Map.empty (collab w);
          (arr', w1) = newArray pop' (w\<lparr>collab := c'\<rparr>)
      in newModelObject ((models w m)\<lparr>population := arr'\<rparr>) w1)"

section \<open>The default reproduction strategy\<close>

text \<open>
  Both filling loops of the source have the shape
  \<^verbatim>\<open>for (i = 0; i < M.populationSize; i++) M.population.push(f());\<close>
  with \<open>f\<close> a call into the collaborator. The bound and the array are read from the
  store at every iteration, as in the source.
\<close>

function pushLoop ::
  "(('g, 'u) collab \<Rightarrow> addr \<times> ('g, 'u) collab) \<Rightarrow> addr \<Rightarrow> nat \<Rightarrow> ('g, 'u) world
     \<Rightarrow> ('g, 'u) world" where
  "pushLoop f m i w =
     (if int i < populationSize (models w m) then
        (let arr = population (models w m);
             (x, c) = f (collab w)
         in pushLoop f m (Suc i) (arrayUpdate arr (\<lambda>xs. xs @ [x]) (w\<lparr>collab := c\<rparr>)))
      else w)"
  by pat_completeness auto
termination
  by (relation "measure (\<lambda>(f, m, i, w). nat (populationSize (models w m)) - i)")
     (auto simp: arrayUpdate_def split: prod.splits)

text \<open>
  \<^verbatim>\<open>for (i = 0; i < newModel.populationSize; i++)
       newModel.population.push(this.crossover(parentA, parentB));\<close>
\<close>

definition crossoverLoop ::
  "('g, 'u) callbacks \<Rightarrow> addr \<Rightarrow> addr option \<Rightarrow> addr option \<Rightarrow> nat \<Rightarrow> ('g, 'u) world
     \<Rightarrow> ('g, 'u) world" where
  "crossoverLoop cb newModel parentA parentB i w =
     pushLoop (crossover cb parentA parentB) newModel i w"

text \<open>
  \<^verbatim>\<open>for (i = 0; i < newModel.populationSize; i++)
       newModel.population[i] = this.mutate(newModel.population[i]);\<close>
\<close>

function mutateLoop ::
  "('g, 'u) callbacks \<Rightarrow> addr \<Rightarrow> nat \<Rightarrow> ('g, 'u) world \<Rightarrow> ('g, 'u) world" where
  "mutateLoop cb newModel i w =
     (if int i < populationSize (models w newModel) then
        (let arr = population (models w newModel);
             (r, c) = mutate cb (array_get (arrays w arr) i) (collab w)
         in mutateLoop cb newModel (Suc i)
              (arrayUpdate arr (\<lambda>xs. array_set xs i r) (w\<lparr>collab := c\<rparr>)))
      else w)"
  by pat_completeness auto
termination
  by (relation "measure (\<lambda>(cb, m, i, w). nat (populationSize (models w m)) - i)")
     (auto simp: arrayUpdate_def split: prod.splits)

text \<open>
  The default value of the constructor's \<^verbatim>\<open>produceNextGeneration\<close> parameter
  (lines 161 to 185). The comparator is
  \<^verbatim>\<open>(a, b) => this.calculateFitness(b) - this.calculateFitness(a)\<close>; \<^verbatim>\<open>sort\<close> works in
  place on the clone's array and returns that same array.
\<close>

definition defaultProduceNextGeneration ::
  "('g, 'u) callbacks \<Rightarrow> addr \<Rightarrow> ('g, 'u) world \<Rightarrow> addr \<times> ('g, 'u) world" where
  "defaultProduceNextGeneration cb m w =
     (let (newModel, w1) = structuredClone m w;
          w2 = modelUpdate newModel
                 (\<lambda>mo. mo\<lparr>generation := numberIncrement (generation mo)\<rparr>) w1;
          sortedPopulation = population (models w2 newModel);
          w3 = arrayUpdate sortedPopulation
                 (array_sort (\<lambda>a b. calculateFitness cb b (collab w2)
                                      - calculateFitness cb a (collab w2))) w2;
          parentA = array_get (arrays w3 sortedPopulation) 0;
          parentB = array_get (arrays w3 sortedPopulation) 1;
          (emptyArray, w4) = newArray [] w3;
          w5 = modelUpdate newModel (\<lambda>mo. mo\<lparr>population := emptyArray\<rparr>) w4;
          w6 = crossoverLoop cb newModel parentA parentB 0 w5;
          w7 = mutateLoop cb newModel 0 w6
      in (newModel, w7))"

text \<open>
  The strategy the engine runs: the supplied one, or the default, which calls no method
  of the engine.
\<close>

definition theProduceNextGeneration ::
  "('g, 'u) callbacks \<Rightarrow> addr \<Rightarrow> ('g, 'u) world \<Rightarrow> addr \<times> ('g, 'u) world \<times> control list" where
  "theProduceNextGeneration cb m w =
     (case produceNextGeneration cb of
        Some f \<Rightarrow> f m w
      | None \<Rightarrow> (let (m', w') = defaultProduceNextGeneration cb m w in (m', w', [])))"

section \<open>The engine\<close>

text \<open>
  \<^verbatim>\<open>for (i = 0; i < this.model.populationSize; i++)
       this.model.population.push(this.createOrganism());\<close>
\<close>

definition createLoop ::
  "('g, 'u) callbacks \<Rightarrow> addr \<Rightarrow> nat \<Rightarrow> ('g, 'u) world \<Rightarrow> ('g, 'u) world" where
  "createLoop cb m i w = pushLoop (createOrganism cb) m i w"

text \<open>
  The constructor (lines 150 to 219); \<open>None\<close> for \<^verbatim>\<open>populationSize\<close> is the omitted
  argument, with its default 50. Nothing is queued at construction.
\<close>

definition constructor ::
  "('g, 'u) callbacks \<Rightarrow> int option \<Rightarrow> ('g, 'u) world \<Rightarrow> ('g, 'u) state" where
  "constructor cb populationSizeArg w =
     (let n = (case populationSizeArg of Some k \<Rightarrow> k | None \<Rightarrow> 50);
          (arr, w1) = newArray [] w;
          (m, w2) = newModelObject \<lparr>populationSize = n, generation = 0, population = arr\<rparr> w1
      in \<lparr>model = m, isRunning = False, pending = [], world = createLoop cb m 0 w2\<rparr>)"

text \<open>\<^verbatim>\<open>next()\<close>: \<^verbatim>\<open>requestAnimationFrame(() => { this.step(); })\<close>.\<close>

definition next_tick :: "('g, 'u) state \<Rightarrow> ('g, 'u) state" where
  "next_tick s = s\<lparr>pending := pending s @ [AnimationFrame]\<rparr>"

text \<open>\<^verbatim>\<open>play()\<close> (lines 274 to 278) and \<^verbatim>\<open>pause()\<close> (lines 280 to 282).\<close>

definition play :: "('g, 'u) state \<Rightarrow> ('g, 'u) state" where
  "play s = next_tick (s\<lparr>isRunning := True\<rparr>)"

definition pause :: "('g, 'u) state \<Rightarrow> ('g, 'u) state" where
  "pause s = s\<lparr>isRunning := False\<rparr>"

text \<open>The calls of public methods a callback made while it ran, taking effect in order.\<close>

fun applyControls :: "control list \<Rightarrow> ('g, 'u) state \<Rightarrow> ('g, 'u) state" where
  "applyControls [] s = s"
| "applyControls (CallPlay # cs) s = applyControls cs (play s)"
| "applyControls (CallPause # cs) s = applyControls cs (pause s)"

text \<open>
  Lines 242 to 244:
  \<^verbatim>\<open>if (this.shouldProgressGeneration(this.model))
       this.model = this.produceNextGeneration(this.model);\<close>
\<close>

definition progressGeneration :: "('g, 'u) callbacks \<Rightarrow> ('g, 'u) state \<Rightarrow> ('g, 'u) state" where
  "progressGeneration cb s =
     (if shouldProgressGeneration cb (model s) (world s)
      then (let (m', w', cs) = theProduceNextGeneration cb (model s) (world s)
            in (applyControls cs (s\<lparr>world := w'\<rparr>))\<lparr>model := m'\<rparr>)
      else s)"

text \<open>
  Line 248: \<^verbatim>\<open>this.stepFunction(this.model);\<close> What the hook does to the store and
  the calls of \<^verbatim>\<open>play()\<close> and \<^verbatim>\<open>pause()\<close> it makes take effect before the
  \<^verbatim>\<open>next()\<close> of line 249.
\<close>

definition runStepFunction :: "('g, 'u) callbacks \<Rightarrow> ('g, 'u) state \<Rightarrow> ('g, 'u) state" where
  "runStepFunction cb s =
     (let (w', cs) = stepFunction cb (model s) (world s)
      in applyControls cs (s\<lparr>world := w'\<rparr>))"

text \<open>\<^verbatim>\<open>step()\<close> (lines 229 to 251).\<close>

definition step :: "('g, 'u) callbacks \<Rightarrow> ('g, 'u) state \<Rightarrow> ('g, 'u) state" where
  "step cb s =
     (let s1 = (if shouldTerminate cb (model s) (world s) then s\<lparr>isRunning := False\<rparr> else s)
      in if isRunning s1 = False then s1
         else
           (let s2 = progressGeneration cb s1
            in if isRunning s2
               then next_tick (runStepFunction cb s2)
               else s2))"

text \<open>
  The host fires the oldest pending request: it leaves the queue and \<^verbatim>\<open>step()\<close> runs.
  With nothing pending there is nothing to fire.
\<close>

definition tick :: "('g, 'u) callbacks \<Rightarrow> ('g, 'u) state \<Rightarrow> ('g, 'u) state" where
  "tick cb s = (case pending s of [] \<Rightarrow> s | r # rs \<Rightarrow> step cb (s\<lparr>pending := rs\<rparr>))"

datatype event = Play | Pause | Tick

fun apply_event :: "('g, 'u) callbacks \<Rightarrow> event \<Rightarrow> ('g, 'u) state \<Rightarrow> ('g, 'u) state" where
  "apply_event cb Play s = play s"
| "apply_event cb Pause s = pause s"
| "apply_event cb Tick s = tick cb s"

fun run :: "('g, 'u) callbacks \<Rightarrow> event list \<Rightarrow> ('g, 'u) state \<Rightarrow> ('g, 'u) state" where
  "run cb [] s = s"
| "run cb (e # es) s = run cb es (apply_event cb e s)"


text \<open>\<^verbatim>\<open>model.population\<close>, read through the two references.\<close>

definition populationOf :: "('g, 'u) world \<Rightarrow> addr \<Rightarrow> addr list" where
  "populationOf w m = arrays w (population (models w m))"

section \<open>The reproduction strategy in the words of the specification\<close>

text \<open>Calling \<open>f\<close> exactly \<open>n\<close> times, one call after the other, and collecting the results.\<close>

fun callTimes :: "nat \<Rightarrow> ('s \<Rightarrow> 'a \<times> 's) \<Rightarrow> 's \<Rightarrow> 'a list \<times> 's" where
  "callTimes 0 f s = ([], s)"
| "callTimes (Suc n) f s =
     (let (x, s1) = f s; (xs, s2) = callTimes n f s1 in (x # xs, s2))"

text \<open>Applying \<open>f\<close> to every element of a list, in index order.\<close>

fun callOnEach :: "('b \<Rightarrow> 's \<Rightarrow> 'a \<times> 's) \<Rightarrow> 'b list \<Rightarrow> 's \<Rightarrow> 'a list \<times> 's" where
  "callOnEach f [] s = ([], s)"
| "callOnEach f (x # xs) s =
     (let (y, s1) = f x s; (ys, s2) = callOnEach f xs s1 in (y # ys, s2))"

text \<open>Sorting in descending order of fitness, equal elements keeping their order.\<close>

definition sortDescending :: "('a \<Rightarrow> real) \<Rightarrow> 'a list \<Rightarrow> 'a list" where
  "sortDescending fitness xs = sort_key (\<lambda>a. - fitness a) xs"

text \<open>
  Section 4.2 of the specification, step by step: copy the model and increment
  \<open>generation\<close> (a number); sort the copied population in descending fitness order; the top two are
  \<open>parentA\<close> and \<open>parentB\<close>; the new population is \<open>crossover parentA parentB\<close> called
  \<open>populationSize\<close> times; \<open>mutate\<close> is applied to every element of it, in order. The
  result is written out as the store it leaves: the copy's first array holds the sorted
  copies, its new array the mutated offspring.
\<close>

definition reproductionSpec ::
  "('g, 'u) callbacks \<Rightarrow> addr \<Rightarrow> ('g, 'u) world \<Rightarrow> addr \<times> ('g, 'u) world" where
  "reproductionSpec cb m w =
     (let (copy, w1) = structuredClone m w;
          sortedCopy = sortDescending (\<lambda>a. calculateFitness cb a (collab w1))
                         (arrays w1 (population (models w1 copy)));
          parentA = array_get sortedCopy 0;
          parentB = array_get sortedCopy 1;
          (children, c2) = callTimes (nat (populationSize (models w m)))
                             (crossover cb parentA parentB) (collab w1);
          (mutated, c3) = callOnEach (\<lambda>x. mutate cb (Some x)) children c2
      in (copy,
          w1\<lparr>collab := c3,
             models := (models w1)(copy :=
               \<lparr>populationSize = populationSize (models w m),
                generation = numberIncrement (generation (models w m)),
                population = nextArray w1\<rparr>),
             arrays := (arrays w1)(population (models w1 copy) := sortedCopy,
                                   nextArray w1 := mutated),
             nextArray := Suc (nextArray w1)\<rparr>))"

section \<open>The callback contract on organism objects\<close>

text \<open>
  What the specification asks of \<^verbatim>\<open>crossover\<close> and \<^verbatim>\<open>mutate\<close> (section 4.3), on
  the store: a call writes only to the organisms it was handed and to objects it creates
  itself, never frees an object, and returns one of its arguments or a new object.
\<close>

definition crossoverFrame :: "('g, 'u) callbacks \<Rightarrow> bool" where
  "crossoverFrame cb \<longleftrightarrow>
     (\<forall>pa pb c. case crossover cb pa pb c of (r, c') \<Rightarrow>
        nextOrganism c \<le> nextOrganism c'
        \<and> (\<forall>a<nextOrganism c. Some a \<noteq> pa \<longrightarrow> Some a \<noteq> pb \<longrightarrow> organisms c' a = organisms c a)
        \<and> (Some r = pa \<or> Some r = pb \<or> nextOrganism c \<le> r))"

definition mutateFrame :: "('g, 'u) callbacks \<Rightarrow> bool" where
  "mutateFrame cb \<longleftrightarrow>
     (\<forall>x c. case mutate cb x c of (r, c') \<Rightarrow>
        nextOrganism c \<le> nextOrganism c'
        \<and> (\<forall>a<nextOrganism c. Some a \<noteq> x \<longrightarrow> organisms c' a = organisms c a)
        \<and> (Some r = x \<or> nextOrganism c \<le> r))"

text \<open>A reference that is \<^verbatim>\<open>undefined\<close> or points at or above an allocation mark.\<close>

definition aboveBase :: "addr \<Rightarrow> addr option \<Rightarrow> bool" where
  "aboveBase b x = (case x of None \<Rightarrow> True | Some a \<Rightarrow> b \<le> a)"

text \<open>The model object at \<open>m\<close>, its array and its organisms are objects of the store.\<close>

definition allocated :: "('g, 'u) world \<Rightarrow> addr \<Rightarrow> bool" where
  "allocated w m \<longleftrightarrow>
     m < nextModel w \<and> population (models w m) < nextArray w
     \<and> (\<forall>a \<in> set (populationOf w m). a < nextOrganism (collab w))"

section \<open>Calling a method of the engine by name\<close>





section \<open>Callbacks that leave the controls alone\<close>

text \<open>
  \<^verbatim>\<open>stepFunction\<close> and a custom \<^verbatim>\<open>produceNextGeneration\<close> never call
  \<^verbatim>\<open>play()\<close> while they run, respectively never call \<^verbatim>\<open>play()\<close> or
  \<^verbatim>\<open>pause()\<close>.
\<close>

definition noPlayCalls :: "('g, 'u) callbacks \<Rightarrow> bool" where
  "noPlayCalls cb \<longleftrightarrow>
     (\<forall>m w. CallPlay \<notin> set (snd (stepFunction cb m w)))
     \<and> (\<forall>m w. CallPlay \<notin> set (snd (snd (theProduceNextGeneration cb m w))))"

definition noControlCalls :: "('g, 'u) callbacks \<Rightarrow> bool" where
  "noControlCalls cb \<longleftrightarrow>
     (\<forall>m w. snd (stepFunction cb m w) = [])
     \<and> (\<forall>m w. snd (snd (theProduceNextGeneration cb m w)) = [])"

section \<open>Sequences of control calls and ticks\<close>

text \<open>
  The sequences in which \<^verbatim>\<open>play()\<close> is only called while the host has no step
  request pending.
\<close>

fun playsOnlyWhenIdle :: "('g, 'u) callbacks \<Rightarrow> event list \<Rightarrow> ('g, 'u) state \<Rightarrow> bool" where
  "playsOnlyWhenIdle cb [] s = True"
| "playsOnlyWhenIdle cb (e # es) s =
     ((e = Play \<longrightarrow> pending s = []) \<and> playsOnlyWhenIdle cb es (apply_event cb e s))"

section \<open>A concrete engine\<close>

text \<open>
  The scenario of the specification's section 8: organisms with genes \<open>[i]\<close> for a counter
  \<open>i\<close>, fitness the gene value, a crossover that returns a copy of \<open>parentA\<close>, the identity
  as mutation, a generation advance on every tick, no termination.
\<close>

definition emptyWorld :: "(int list, nat) world" where
  "emptyWorld =
     \<lparr>collab = \<lparr>organisms = (\<lambda>_. \<lparr>genes = [], mutationChance = 0\<rparr>),
                nextOrganism = 0, user = 0\<rparr>,
      models = (\<lambda>_. \<lparr>populationSize = 0, generation = 0, population = 0\<rparr>),
      arrays = (\<lambda>_. []), nextModel = 0, nextArray = 0\<rparr>"

definition newOrganism ::
  "'g organism \<Rightarrow> ('g, 'u) collab \<Rightarrow> addr \<times> ('g, 'u) collab" where
  "newOrganism v c =
     (nextOrganism c,
      c\<lparr>organisms := (organisms c)(nextOrganism c := v), nextOrganism := Suc (nextOrganism c)\<rparr>)"

definition exampleCallbacks :: "(int list, nat) callbacks" where
  "exampleCallbacks =
     \<lparr>createOrganism =
        (\<lambda>c. newOrganism \<lparr>genes = [int (user c)], mutationChance = 0\<rparr> (c\<lparr>user := Suc (user c)\<rparr>)),
      stepFunction = (\<lambda>m w. (w, [])),
      calculateFitness = (\<lambda>a c. real_of_int (sum_list (genes (organisms c a)))),
      crossover =
        (\<lambda>pa pb c. case pa of
           Some a \<Rightarrow> newOrganism (organisms c a) c
         | None \<Rightarrow> newOrganism \<lparr>genes = [], mutationChance = 0\<rparr> c),
      mutate = (\<lambda>x c. case x of Some a \<Rightarrow> (a, c) | None \<Rightarrow> newOrganism \<lparr>genes = [], mutationChance = 0\<rparr> c),
      shouldTerminate = (\<lambda>m w. False),
      shouldProgressGeneration = (\<lambda>m w. True),
      produceNextGeneration = None\<rparr>"

text \<open>The same engine with a termination predicate that holds from generation 1 on.\<close>

definition terminatingCallbacks :: "(int list, nat) callbacks" where
  "terminatingCallbacks =
     exampleCallbacks\<lparr>shouldTerminate := (\<lambda>m w. 1 \<le> generation (models w m))\<rparr>"

text \<open>The same engine with a step hook that calls \<^verbatim>\<open>play()\<close> on every frame.\<close>

definition replayingCallbacks :: "(int list, nat) callbacks" where
  "replayingCallbacks = exampleCallbacks\<lparr>stepFunction := (\<lambda>m w. (w, [CallPlay]))\<rparr>"

text \<open>A store holding one model of generation 1 with two organisms, and a running engine on it.\<close>

definition smallWorld :: "(int list, nat) world" where
  "smallWorld =
     \<lparr>collab = \<lparr>organisms = (\<lambda>a. \<lparr>genes = [int a], mutationChance = 0\<rparr>),
                nextOrganism = 2, user = 2\<rparr>,
      models = (\<lambda>_. \<lparr>populationSize = 2, generation = 1, population = 0\<rparr>),
      arrays = (\<lambda>_. [0, 1]), nextModel = 1, nextArray = 1\<rparr>"

definition runningEngine :: "(int list, nat) state" where
  "runningEngine = \<lparr>model = 0, isRunning = True, pending = [], world = smallWorld\<rparr>"

text \<open>The same store with the model at generation \<open>2 ^ 53 = 9007199254740992\<close>.\<close>

definition agedWorld :: "(int list, nat) world" where
  "agedWorld =
     smallWorld\<lparr>models :=
       (\<lambda>_. \<lparr>populationSize = 2, generation = 9007199254740992, population = 0\<rparr>)\<rparr>"

section \<open>Supporting lemmas\<close>

declare pushLoop.simps [simp del] mutateLoop.simps [simp del]

lemma arrayUpdate_fields [simp]:
  "models (arrayUpdate a f w) = models w"
  "collab (arrayUpdate a f w) = collab w"
  "nextModel (arrayUpdate a f w) = nextModel w"
  "nextArray (arrayUpdate a f w) = nextArray w"
  "arrays (arrayUpdate a f w) = (arrays w)(a := f (arrays w a))"
  by (simp_all add: arrayUpdate_def)

lemma pushLoop_eq:
  "pushLoop f m i w =
     (let (xs, c) = callTimes (nat (populationSize (models w m) - int i)) f (collab w)
      in arrayUpdate (population (models w m)) (\<lambda>ys. ys @ xs) (w\<lparr>collab := c\<rparr>))"
proof (induction f m i w rule: pushLoop.induct)
  case (1 f m i w)
  show ?case
  proof (cases "int i < populationSize (models w m)")
    case False
    then have "nat (populationSize (models w m) - int i) = 0" by simp
    with False show ?thesis
      by (subst pushLoop.simps) (simp add: arrayUpdate_def)
  next
    case True
    obtain x c where fx: "f (collab w) = (x, c)" by (cases "f (collab w)")
    let ?w1 = "arrayUpdate (population (models w m)) (\<lambda>xs. xs @ [x]) (w\<lparr>collab := c\<rparr>)"
    from True have n: "nat (populationSize (models w m) - int i)
        = Suc (nat (populationSize (models w m) - int (Suc i)))" by simp
    have ih: "pushLoop f m (Suc i) ?w1 =
       (let (xs, c') = callTimes (nat (populationSize (models ?w1 m) - int (Suc i))) f (collab ?w1)
        in arrayUpdate (population (models ?w1 m)) (\<lambda>ys. ys @ xs) (?w1\<lparr>collab := c'\<rparr>))"
      using "1.IH" [OF True refl refl fx [symmetric]] .
    have "pushLoop f m i w = pushLoop f m (Suc i) ?w1"
      using True fx by (subst pushLoop.simps) simp
    also note ih
    finally show ?thesis
      unfolding n by (simp add: fx arrayUpdate_def split: prod.splits)
  qed
qed


lemma mutateLoop_eq:
  assumes "length (arrays w (population (models w m))) = nat (populationSize (models w m))"
    and "i \<le> length (arrays w (population (models w m)))"
  shows "mutateLoop cb m i w =
     (let (rs, c) = callOnEach (\<lambda>x. mutate cb (Some x))
                      (drop i (arrays w (population (models w m)))) (collab w)
      in arrayUpdate (population (models w m)) (\<lambda>ys. take i ys @ rs) (w\<lparr>collab := c\<rparr>))"
  using assms
proof (induction cb m i w rule: mutateLoop.induct)
  case (1 cb m i w)
  let ?arr = "population (models w m)"
  let ?xs = "arrays w ?arr"
  show ?case
  proof (cases "int i < populationSize (models w m)")
    case False
    with "1.prems" have "length ?xs \<le> i" by simp
    with False show ?thesis
      by (subst mutateLoop.simps) (simp add: arrayUpdate_def)
  next
    case True
    with "1.prems" have lt: "i < length ?xs" by simp
    obtain r c where mr: "mutate cb (Some (?xs ! i)) (collab w) = (r, c)"
      by (cases "mutate cb (Some (?xs ! i)) (collab w)")
    have get: "array_get ?xs i = Some (?xs ! i)"
      using lt by (simp add: array_get_def)
    let ?w1 = "arrayUpdate ?arr (\<lambda>xs. array_set xs i r) (w\<lparr>collab := c\<rparr>)"
    have arr1: "arrays ?w1 ?arr = ?xs[i := r]"
      using lt by (simp add: array_set_def)
    have ih: "mutateLoop cb m (Suc i) ?w1 =
       (let (rs, c') = callOnEach (\<lambda>x. mutate cb (Some x))
                        (drop (Suc i) (arrays ?w1 (population (models ?w1 m)))) (collab ?w1)
        in arrayUpdate (population (models ?w1 m)) (\<lambda>ys. take (Suc i) ys @ rs) (?w1\<lparr>collab := c'\<rparr>))"
    proof (rule "1.IH" [OF True refl refl])
      show "(r, c) = mutate cb (array_get ?xs i) (collab w)"
        by (simp add: get mr)
      show "length (arrays ?w1 (population (models ?w1 m))) = nat (populationSize (models ?w1 m))"
        using "1.prems" lt by (simp add: array_set_def)
      show "Suc i \<le> length (arrays ?w1 (population (models ?w1 m)))"
        using lt by (simp add: array_set_def)
    qed
    have "mutateLoop cb m i w = mutateLoop cb m (Suc i) ?w1"
      using True by (subst mutateLoop.simps) (simp add: get mr)
    also note ih
    finally show ?thesis
      using lt
      by (simp add: Cons_nth_drop_Suc [symmetric] mr arrayUpdate_def array_set_def
            take_Suc_conv_app_nth split: prod.splits)
  qed
qed


lemma insert_by_insort:
  "insert_by (\<lambda>a b. f b - f a) x ys = insort_key (\<lambda>a. - f a) x ys"
  by (induction ys) auto

lemma array_sort_sortDescending:
  "array_sort (\<lambda>a b. f b - f a) xs = sortDescending f xs"
  by (induction xs) (simp_all add: array_sort_def sortDescending_def insert_by_insort)

lemma sortDescending_sorted:
  "sorted_wrt (\<lambda>a b. f b \<le> f a) (sortDescending f xs)"
proof -
  have "sorted (map (\<lambda>a. - f a) (sortDescending f xs))"
    by (simp add: sortDescending_def)
  then show ?thesis
    by (simp add: sorted_map sorted_wrt_iff_nth_less)
qed

lemma sortDescending_mset: "mset (sortDescending f xs) = mset xs"
  by (simp add: sortDescending_def)

lemma structuredClone_shape:
  "structuredClone m w = (m', w1) \<Longrightarrow>
     m' = nextModel w \<and> nextModel w1 = Suc (nextModel w) \<and> nextArray w1 = Suc (nextArray w)
     \<and> models w1 = (models w)(nextModel w := (models w m)\<lparr>population := nextArray w\<rparr>)
     \<and> arrays w1 = (arrays w)(nextArray w :=
           fst (cloneOrganisms (arrays w (population (models w m))) Map.empty (collab w)))
     \<and> collab w1 = snd (cloneOrganisms (arrays w (population (models w m))) Map.empty (collab w))"
  by (auto simp: structuredClone_def newArray_def newModelObject_def split: prod.splits)

lemma callOnEach_length: "callOnEach f xs s = (ys, s') \<Longrightarrow> length ys = length xs"
  by (induction xs arbitrary: s ys) (auto split: prod.splits)

lemma callTimes_length: "callTimes n f s = (xs, s') \<Longrightarrow> length xs = n"
  by (induction n arbitrary: s xs) (auto split: prod.splits)

lemma default_strategy_eq:
  "defaultProduceNextGeneration cb m w = reproductionSpec cb m w"
proof -
  obtain m1 w1 where sc: "structuredClone m w = (m1, w1)"
    by (cases "structuredClone m w")
  note sh = structuredClone_shape [OF sc]
  have ne: "nextArray w \<noteq> nextArray w1" using sh by simp
  have pm1: "population (models w1 m1) = nextArray w" using sh by simp
  have sm1: "populationSize (models w1 m1) = populationSize (models w m)"
    and gm1: "generation (models w1 m1) = generation (models w m)" using sh by simp_all
  define fit where "fit = (\<lambda>a. calculateFitness cb a (collab w1))"
  define sortedCopy where "sortedCopy = sortDescending fit (arrays w1 (nextArray w))"
  define pa where "pa = array_get sortedCopy 0"
  define pb where "pb = array_get sortedCopy 1"
  obtain children c2 where ct: "callTimes (nat (populationSize (models w m)))
      (crossover cb pa pb) (collab w1) = (children, c2)"
    by (cases "callTimes (nat (populationSize (models w m))) (crossover cb pa pb) (collab w1)")
  obtain mutated c3 where ce: "callOnEach (\<lambda>x. mutate cb (Some x)) children c2 = (mutated, c3)"
    by (cases "callOnEach (\<lambda>x. mutate cb (Some x)) children c2")
  have len: "length children = nat (populationSize (models w m))"
    using ct by (rule callTimes_length)
  define w2 where "w2 = modelUpdate m1 (\<lambda>mo. mo\<lparr>generation := numberIncrement (generation mo)\<rparr>) w1"
  define w3 where "w3 = arrayUpdate (nextArray w) (array_sort (\<lambda>a b. fit b - fit a)) w2"
  define w5 where "w5 = modelUpdate m1 (\<lambda>mo. mo\<lparr>population := nextArray w1\<rparr>) (snd (newArray [] w3))"
  have m5: "models w5 m1 = \<lparr>populationSize = populationSize (models w m),
      generation = numberIncrement (generation (models w m)), population = nextArray w1\<rparr>"
    by (simp add: w5_def w3_def w2_def modelUpdate_def newArray_def sm1 gm1)
  have a5: "arrays w5 = (arrays w1)(nextArray w := sortedCopy, nextArray w1 := [])"
    by (simp add: w5_def w3_def w2_def modelUpdate_def newArray_def sortedCopy_def
          array_sort_sortDescending)
  have c5: "collab w5 = collab w1"
    by (simp add: w5_def w3_def w2_def modelUpdate_def newArray_def)
  define w6 where "w6 = crossoverLoop cb m1 pa pb 0 w5"
  have w6: "w6 = arrayUpdate (nextArray w1) (\<lambda>ys. ys @ children) (w5\<lparr>collab := c2\<rparr>)"
    unfolding w6_def crossoverLoop_def pushLoop_eq by (simp add: m5 c5 ct)
  have m6: "models w6 = models w5" and c6: "collab w6 = c2"
    and a6: "arrays w6 = (arrays w1)(nextArray w := sortedCopy, nextArray w1 := children)"
    unfolding w6 by (simp_all add: a5)
  have w7: "mutateLoop cb m1 0 w6 =
     arrayUpdate (nextArray w1) (\<lambda>ys. mutated) (w6\<lparr>collab := c3\<rparr>)"
    by (subst mutateLoop_eq) (simp_all add: m6 m5 a6 len c6 ce)
  have lhs: "defaultProduceNextGeneration cb m w = (m1, mutateLoop cb m1 0 w6)"
    by (simp add: defaultProduceNextGeneration_def sc Let_def w6_def w5_def w3_def w2_def
          pa_def pb_def sortedCopy_def fit_def array_sort_sortDescending newArray_def
          modelUpdate_def pm1 split: prod.splits)
  have rhs: "reproductionSpec cb m w = (m1,
          w1\<lparr>collab := c3,
             models := (models w1)(m1 :=
               \<lparr>populationSize = populationSize (models w m),
                generation = numberIncrement (generation (models w m)),
                population = nextArray w1\<rparr>),
             arrays := (arrays w1)(nextArray w := sortedCopy, nextArray w1 := mutated),
             nextArray := Suc (nextArray w1)\<rparr>)"
    using ct ce unfolding pa_def pb_def sortedCopy_def fit_def reproductionSpec_def
    by (simp add: sc Let_def pm1)
  have mo: "(models w1 m1)\<lparr>generation := numberIncrement (generation (models w m)),
      population := nextArray w1\<rparr> = \<lparr>populationSize = populationSize (models w m),
      generation = numberIncrement (generation (models w m)), population = nextArray w1\<rparr>"
    using sm1 by (cases "models w1 m1") simp
  have "mutateLoop cb m1 0 w6 = w1\<lparr>collab := c3,
             models := (models w1)(m1 :=
               \<lparr>populationSize = populationSize (models w m),
                generation = numberIncrement (generation (models w m)),
                population = nextArray w1\<rparr>),
             arrays := (arrays w1)(nextArray w := sortedCopy, nextArray w1 := mutated),
             nextArray := Suc (nextArray w1)\<rparr>"
    apply (subst w7)
    apply (subst w6)
    by (simp add: mo arrayUpdate_def w5_def w3_def w2_def modelUpdate_def newArray_def
          sortedCopy_def fit_def array_sort_sortDescending sm1 gm1 pm1 ne)
  with lhs rhs show ?thesis by simp
qed


lemma pushLoop_models [simp]: "models (pushLoop f m i w) = models w"
  by (simp add: pushLoop_eq split: prod.splits)

lemma pushLoop_population:
  "populationOf w m = [] \<Longrightarrow>
     length (populationOf (pushLoop f m 0 w) m) = nat (populationSize (models w m))"
  by (auto simp: pushLoop_eq populationOf_def dest: callTimes_length split: prod.splits)

lemma constructor_model:
  "models (world (constructor cb a w)) (model (constructor cb a w)) =
     \<lparr>populationSize = (case a of Some k \<Rightarrow> k | None \<Rightarrow> 50), generation = 0,
      population = nextArray w\<rparr>"
  by (simp add: constructor_def createLoop_def newArray_def newModelObject_def Let_def)

lemma constructor_population_length:
  "length (populationOf (world (constructor cb a w)) (model (constructor cb a w)))
     = nat (case a of Some k \<Rightarrow> k | None \<Rightarrow> 50)"
proof -
  let ?n = "case a of Some k \<Rightarrow> k | None \<Rightarrow> 50"
  let ?w2 = "snd (newModelObject \<lparr>populationSize = ?n, generation = 0, population = nextArray w\<rparr>
                 (snd (newArray [] w)))"
  have c: "constructor cb a w =
      \<lparr>model = nextModel w, isRunning = False, pending = [],
       world = pushLoop (createOrganism cb) (nextModel w) 0 ?w2\<rparr>"
    by (simp add: constructor_def createLoop_def newArray_def newModelObject_def Let_def)
  have m2: "models ?w2 (nextModel w) =
      \<lparr>populationSize = ?n, generation = 0, population = nextArray w\<rparr>"
    by (simp add: newArray_def newModelObject_def)
  have e2: "populationOf ?w2 (nextModel w) = []"
    by (simp add: populationOf_def newArray_def newModelObject_def)
  show ?thesis
    using pushLoop_population [OF e2, of "createOrganism cb"] by (simp add: c m2)
qed

lemma constructor_idle:
  "isRunning (constructor cb a w) = False" "pending (constructor cb a w) = []"
  by (simp_all add: constructor_def Let_def split: prod.splits)

lemma reproductionSpec_model:
  "reproductionSpec cb m w = (m', w') \<Longrightarrow>
     models w' m' = \<lparr>populationSize = populationSize (models w m),
                     generation = numberIncrement (generation (models w m)),
                     population = Suc (nextArray w)\<rparr>"
  by (auto simp: reproductionSpec_def Let_def split: prod.splits dest!: structuredClone_shape)

lemma reproductionSpec_population_length:
  "reproductionSpec cb m w = (m', w') \<Longrightarrow>
     length (populationOf w' m') = nat (populationSize (models w m))"
  by (auto simp: reproductionSpec_def Let_def populationOf_def split: prod.splits
      dest!: structuredClone_shape callTimes_length callOnEach_length)

section \<open>The population and the generation counter\<close>

text \<open>
  Claim C1. The length of \<^verbatim>\<open>model.population\<close> equals \<^verbatim>\<open>model.populationSize\<close>
  after construction and after every run of the default reproduction strategy. The
  specification's data model makes \<^verbatim>\<open>populationSize\<close> a positive integer; the theorem
  asks for no more than \<open>0 \<le> populationSize\<close>. It covers the constructor with a given
  size, the constructor with the default size 50, and the default strategy run on any model
  of the store, whatever the length of that model's population was before.
\<close>

theorem population_length_invariant:
  "(0 \<le> n \<longrightarrow>
      int (length (populationOf (world (constructor cb (Some n) w))
                                (model (constructor cb (Some n) w))))
        = populationSize (models (world (constructor cb (Some n) w))
                                 (model (constructor cb (Some n) w))))
   \<and> int (length (populationOf (world (constructor cb None w)) (model (constructor cb None w))))
        = populationSize (models (world (constructor cb None w)) (model (constructor cb None w)))
   \<and> (0 \<le> populationSize (models v m) \<longrightarrow>
        (case defaultProduceNextGeneration cb m v of
           (m', v') \<Rightarrow> int (length (populationOf v' m')) = populationSize (models v' m')))"
proof (intro conjI impI)
  assume "0 \<le> n"
  then show "int (length (populationOf (world (constructor cb (Some n) w))
                                       (model (constructor cb (Some n) w))))
        = populationSize (models (world (constructor cb (Some n) w))
                                 (model (constructor cb (Some n) w)))"
    by (simp add: constructor_population_length constructor_model)
next
  show "int (length (populationOf (world (constructor cb None w)) (model (constructor cb None w))))
        = populationSize (models (world (constructor cb None w)) (model (constructor cb None w)))"
    by (simp add: constructor_population_length constructor_model)
next
  assume nn: "0 \<le> populationSize (models v m)"
  obtain m' v' where r: "reproductionSpec cb m v = (m', v')"
    by (cases "reproductionSpec cb m v")
  show "case defaultProduceNextGeneration cb m v of
           (m', v') \<Rightarrow> int (length (populationOf v' m')) = populationSize (models v' m')"
    using nn reproductionSpec_model [OF r] reproductionSpec_population_length [OF r]
    by (simp add: default_strategy_eq r)
qed

theorem population_length_invariant_witness:
  "(0::int) \<le> 4
   \<and> int (length (populationOf (world (constructor exampleCallbacks (Some 4) emptyWorld))
                               (model (constructor exampleCallbacks (Some 4) emptyWorld)))) = 4
   \<and> 0 \<le> populationSize (models smallWorld 0)
   \<and> (case defaultProduceNextGeneration exampleCallbacks 0 smallWorld of
         (m', w') \<Rightarrow> int (length (populationOf w' m')) = populationSize (models w' m'))"
  using population_length_invariant
    [where n = 4 and cb = exampleCallbacks and w = emptyWorld and v = smallWorld and m = 0]
  by (simp add: constructor_model smallWorld_def)

text \<open>
  Outside the data model: the constructor does not check its argument, and a negative
  \<^verbatim>\<open>populationSize\<close> leaves the population empty.
\<close>

lemma negative_size_empty_population:
  "n < 0 \<Longrightarrow>
     populationOf (world (constructor cb (Some n) w)) (model (constructor cb (Some n) w)) = []"
  using constructor_population_length [of cb "Some n" w] by simp

text \<open>
  Integers of magnitude below \<open>2 ^ 53\<close> are incremented exactly; at \<open>2 ^ 53\<close> the sum
  \<open>2 ^ 53 + 1\<close> lies halfway between two doubles and is rounded back to \<open>2 ^ 53\<close>.
\<close>

declare doubleSpacing.simps [simp del]

lemma doubleSpacing_small: "a < 2 ^ 53 \<Longrightarrow> doubleSpacing a = 1"
  by (subst doubleSpacing.simps) simp

lemma roundToDouble_exact: "\<bar>z\<bar> < 2 ^ 53 \<Longrightarrow> roundToDouble z = z"
proof -
  assume "\<bar>z\<bar> < 2 ^ 53"
  then have sp: "doubleSpacing \<bar>z\<bar> = 1" by (rule doubleSpacing_small)
  show ?thesis unfolding roundToDouble_def Let_def sp by simp
qed

lemma roundToDouble_2_53: "roundToDouble 9007199254740992 = 9007199254740992"
  by (simp add: roundToDouble_def doubleSpacing.simps [of 9007199254740992]
        doubleSpacing.simps [of 4503599627370496] Let_def)

lemma roundToDouble_2_53_plus_1: "roundToDouble 9007199254740993 = 9007199254740992"
  by (simp add: roundToDouble_def doubleSpacing.simps [of 9007199254740993]
        doubleSpacing.simps [of 4503599627370496] Let_def)

lemma numberIncrement_exact: "\<bar>x\<bar> < 2 ^ 53 \<Longrightarrow> numberIncrement x = x + 1"
proof -
  assume b: "\<bar>x\<bar> < 2 ^ 53"
  show ?thesis
  proof (cases "x + 1 = 9007199254740992")
    case True
    then show ?thesis by (simp add: numberIncrement_def roundToDouble_2_53)
  next
    case False
    with b have "\<bar>x + 1\<bar> < 2 ^ 53" by simp
    then show ?thesis unfolding numberIncrement_def by (rule roundToDouble_exact)
  qed
qed

lemma numberIncrement_2_53: "numberIncrement 9007199254740992 = 9007199254740992"
  by (simp add: numberIncrement_def roundToDouble_2_53_plus_1)

text \<open>
  Claim C2, as amended. \<^verbatim>\<open>generation\<close> is 0 at construction, and one run of the default
  reproduction strategy on a model with generation \<open>N\<close>, \<open>\<bar>N\<bar> < 2 ^ 53\<close>, returns a model
  with generation exactly \<open>N + 1\<close>.
\<close>

theorem generation_counts_reproductions:
  "generation (models (world (constructor cb a w)) (model (constructor cb a w))) = 0
   \<and> (\<bar>generation (models v m)\<bar> < 2 ^ 53 \<longrightarrow>
        (case defaultProduceNextGeneration cb m v of
           (m', v') \<Rightarrow> generation (models v' m') = generation (models v m) + 1))"
proof -
  obtain m' v' where r: "reproductionSpec cb m v = (m', v')"
    by (cases "reproductionSpec cb m v")
  show ?thesis
    using reproductionSpec_model [OF r]
    by (simp add: constructor_model default_strategy_eq r numberIncrement_exact)
qed

theorem generation_counts_reproductions_witness:
  "\<bar>generation (models smallWorld 0)\<bar> < 2 ^ 53
   \<and> (case defaultProduceNextGeneration exampleCallbacks 0 smallWorld of
         (m', v') \<Rightarrow> generation (models v' m') = 2)"
proof -
  have g: "generation (models smallWorld 0) = 1" by (simp add: smallWorld_def)
  then have b: "\<bar>generation (models smallWorld 0)\<bar> < 2 ^ 53" by simp
  from generation_counts_reproductions [of exampleCallbacks _ _ smallWorld 0] b g
  show ?thesis by (simp split: prod.splits)
qed

text \<open>
  Claim C2 as stated fails: \<^verbatim>\<open>generation\<close> is a double, and on a model with generation
  \<open>2 ^ 53\<close> the strategy's \<^verbatim>\<open>newModel.generation++\<close> returns \<open>2 ^ 53\<close> again.
\<close>

theorem generation_stuck_at_2_53:
  "generation (models agedWorld 0) = 9007199254740992
   \<and> (case defaultProduceNextGeneration exampleCallbacks 0 agedWorld of
         (m', v') \<Rightarrow> generation (models v' m') = 9007199254740992
                    \<and> generation (models v' m') \<noteq> generation (models agedWorld 0) + 1)"
proof -
  obtain m' v' where r: "reproductionSpec exampleCallbacks 0 agedWorld = (m', v')"
    by (cases "reproductionSpec exampleCallbacks 0 agedWorld")
  have g: "generation (models agedWorld 0) = 9007199254740992"
    by (simp add: agedWorld_def)
  show ?thesis
    using reproductionSpec_model [OF r]
    by (simp add: default_strategy_eq r g numberIncrement_2_53)
qed

text \<open>
  Claim C3. The default reproduction strategy does what section 4.2 of the specification
  says, in that order: it is equal, as a function of the model and the store, to
  \<open>reproductionSpec\<close>, where the parents are the first two elements of the sorted copy,
  \<open>crossover parentA parentB\<close> is called \<open>populationSize\<close> times and \<open>mutate\<close> is called on
  every child in index order. The sort of the specification is a descending one and keeps
  the elements.
\<close>

theorem default_strategy_follows_spec:
  "defaultProduceNextGeneration cb m w = reproductionSpec cb m w
   \<and> sorted_wrt (\<lambda>a b. fitness b \<le> fitness a) (sortDescending fitness xs)
   \<and> mset (sortDescending fitness xs) = mset xs"
  by (simp add: default_strategy_eq sortDescending_sorted sortDescending_mset)


section \<open>The step loop\<close>

lemma play_fields:
  "isRunning (play s) = True" "pending (play s) = pending s @ [AnimationFrame]"
  "model (play s) = model s" "world (play s) = world s"
  by (simp_all add: play_def next_tick_def)

lemma pause_fields:
  "isRunning (pause s) = False" "pending (pause s) = pending s"
  "model (pause s) = model s" "world (pause s) = world s"
  by (simp_all add: pause_def)

lemma applyControls_store:
  "model (applyControls cs s) = model s \<and> world (applyControls cs s) = world s"
  by (induction cs s rule: applyControls.induct) (simp_all add: play_fields pause_fields)

lemma applyControls_pending:
  "pending (applyControls cs s) = pending s @ replicate (count_list cs CallPlay) AnimationFrame"
  by (induction cs s rule: applyControls.induct)
     (simp_all add: play_fields pause_fields replicate_append_same)

lemma applyControls_no_play:
  "CallPlay \<notin> set cs \<Longrightarrow> pending (applyControls cs s) = pending s"
  by (simp add: applyControls_pending count_list_0_iff)

lemma default_strategy_no_controls:
  "produceNextGeneration cb = None \<Longrightarrow> snd (snd (theProduceNextGeneration cb m w)) = []"
  by (simp add: theProduceNextGeneration_def split: prod.splits)

lemma progressGeneration_pending:
  "noPlayCalls cb \<Longrightarrow> pending (progressGeneration cb s) = pending s"
proof -
  assume np: "noPlayCalls cb"
  obtain m' w' cs where r: "theProduceNextGeneration cb (model s) (world s) = (m', w', cs)"
    by (cases "theProduceNextGeneration cb (model s) (world s)") auto
  from np have "CallPlay \<notin> set (snd (snd (theProduceNextGeneration cb (model s) (world s))))"
    unfolding noPlayCalls_def by blast
  with r have "CallPlay \<notin> set cs" by simp
  then show ?thesis
    by (simp add: progressGeneration_def r applyControls_no_play)
qed

lemma runStepFunction_pending:
  "noPlayCalls cb \<Longrightarrow> pending (runStepFunction cb s) = pending s"
proof -
  assume np: "noPlayCalls cb"
  obtain w' cs where r: "stepFunction cb (model s) (world s) = (w', cs)"
    by (cases "stepFunction cb (model s) (world s)")
  from np have "CallPlay \<notin> set (snd (stepFunction cb (model s) (world s)))"
    unfolding noPlayCalls_def by blast
  with r have "CallPlay \<notin> set cs" by simp
  then show ?thesis
    by (simp add: runStepFunction_def r applyControls_no_play)
qed

lemma progressGeneration_isRunning:
  "noControlCalls cb \<Longrightarrow> isRunning (progressGeneration cb s) = isRunning s"
proof -
  assume nc: "noControlCalls cb"
  obtain m' w' cs where r: "theProduceNextGeneration cb (model s) (world s) = (m', w', cs)"
    by (cases "theProduceNextGeneration cb (model s) (world s)") auto
  from nc have "snd (snd (theProduceNextGeneration cb (model s) (world s))) = []"
    unfolding noControlCalls_def by blast
  with r have "cs = []" by simp
  then show ?thesis
    by (simp add: progressGeneration_def r)
qed

lemma noControlCalls_noPlayCalls: "noControlCalls cb \<Longrightarrow> noPlayCalls cb"
  by (simp add: noControlCalls_def noPlayCalls_def)

lemma step_idle: "isRunning s = False \<Longrightarrow> step cb s = s"
  by (simp add: step_def)

lemma step_terminated:
  "shouldTerminate cb (model s) (world s) \<Longrightarrow> step cb s = s\<lparr>isRunning := False\<rparr>"
  by (simp add: step_def)

lemma step_running:
  "isRunning s \<Longrightarrow> \<not> shouldTerminate cb (model s) (world s) \<Longrightarrow>
     step cb s = (if isRunning (progressGeneration cb s)
                  then next_tick (runStepFunction cb (progressGeneration cb s))
                  else progressGeneration cb s)"
  by (simp add: step_def Let_def)

lemma step_shape:
  "step cb s = s\<lparr>isRunning := False\<rparr>
   \<or> step cb s = progressGeneration cb s
   \<or> step cb s = next_tick (runStepFunction cb (progressGeneration cb s))"
proof (cases "shouldTerminate cb (model s) (world s)")
  case True
  then show ?thesis by (simp add: step_terminated)
next
  case False
  show ?thesis
  proof (cases "isRunning s")
    case True
    with False show ?thesis by (simp add: step_running)
  next
    case r: False
    then have "step cb s = s" by (simp add: step_idle)
    moreover from r have "s\<lparr>isRunning := False\<rparr> = s" by simp
    ultimately show ?thesis by simp
  qed
qed

lemma step_pending_no_play:
  "noPlayCalls cb \<Longrightarrow>
     pending (step cb s) = pending s \<or> pending (step cb s) = pending s @ [AnimationFrame]"
  using step_shape [of cb s]
  by (auto simp: progressGeneration_pending runStepFunction_pending next_tick_def)

lemma step_pow_idle: "isRunning s = False \<Longrightarrow> (step cb ^^ n) s = s"
  by (induction n) (simp_all add: step_idle)

lemma tick_idle: "isRunning s = False \<Longrightarrow> tick cb s = s\<lparr>pending := tl (pending s)\<rparr>"
  by (cases "pending s") (simp_all add: tick_def step_idle)

lemma tick_pending_no_play:
  "noPlayCalls cb \<Longrightarrow>
     pending (tick cb s) = tl (pending s) \<or> pending (tick cb s) = tl (pending s) @ [AnimationFrame]"
proof (cases "pending s")
  case Nil
  then show ?thesis by (simp add: tick_def)
next
  case (Cons r rs)
  assume "noPlayCalls cb"
  from step_pending_no_play [OF this, of "s\<lparr>pending := rs\<rparr>"] Cons
  show ?thesis by (simp add: tick_def)
qed

lemma tick_pending_le:
  "noPlayCalls cb \<Longrightarrow> length (pending (tick cb s)) \<le> length (pending s)"
  using tick_pending_no_play [of cb s] by (cases "pending s") (auto simp: tick_def)

lemma step_isRunning:
  "noControlCalls cb \<Longrightarrow>
     isRunning (step cb s) = (isRunning s \<and> \<not> shouldTerminate cb (model s) (world s))"
proof -
  assume nc: "noControlCalls cb"
  obtain w' cs where r: "stepFunction cb (model (progressGeneration cb s))
      (world (progressGeneration cb s)) = (w', cs)"
    by (cases "stepFunction cb (model (progressGeneration cb s)) (world (progressGeneration cb s))")
  from nc have "snd (stepFunction cb (model (progressGeneration cb s))
      (world (progressGeneration cb s))) = []"
    unfolding noControlCalls_def by blast
  with r have cs: "cs = []" by simp
  show ?thesis
  proof (cases "isRunning s \<and> \<not> shouldTerminate cb (model s) (world s)")
    case True
    then show ?thesis
      by (simp add: step_running progressGeneration_isRunning [OF nc] next_tick_def
            runStepFunction_def r cs)
  next
    case False
    then show ?thesis by (auto simp: step_terminated step_idle)
  qed
qed

lemma step_pending:
  "noControlCalls cb \<Longrightarrow>
     pending (step cb s) =
       (if isRunning s \<and> \<not> shouldTerminate cb (model s) (world s)
        then pending s @ [AnimationFrame] else pending s)"
proof -
  assume nc: "noControlCalls cb"
  note np = noControlCalls_noPlayCalls [OF nc]
  show ?thesis
  proof (cases "isRunning s \<and> \<not> shouldTerminate cb (model s) (world s)")
    case True
    then show ?thesis
      by (simp add: step_running progressGeneration_isRunning [OF nc] next_tick_def
            runStepFunction_pending [OF np] progressGeneration_pending [OF np])
  next
    case False
    then show ?thesis by (auto simp: step_terminated step_idle)
  qed
qed

lemma tick_isRunning:
  "noControlCalls cb \<Longrightarrow>
     isRunning (tick cb s) =
       (isRunning s \<and> (pending s = [] \<or> \<not> shouldTerminate cb (model s) (world s)))"
  by (cases "pending s") (simp_all add: tick_def step_isRunning)

lemma tick_pending:
  "noControlCalls cb \<Longrightarrow>
     pending (tick cb s) =
       (if isRunning s \<and> \<not> shouldTerminate cb (model s) (world s) \<and> pending s \<noteq> []
        then tl (pending s) @ [AnimationFrame] else tl (pending s))"
  by (cases "pending s") (simp_all add: tick_def step_pending)

lemma ticks_idle:
  "isRunning s = False \<Longrightarrow> run cb (replicate n Tick) s = s\<lparr>pending := drop n (pending s)\<rparr>"
proof (induction n arbitrary: s)
  case 0
  then show ?case by simp
next
  case (Suc n)
  then show ?case by (simp add: tick_idle drop_Suc)
qed

lemma no_play_stays_idle:
  "isRunning s = False \<Longrightarrow> Play \<notin> set evs \<Longrightarrow> isRunning (run cb evs s) = False"
proof (induction evs arbitrary: s)
  case Nil
  then show ?case by simp
next
  case (Cons e evs)
  then show ?case by (cases e) (simp_all add: pause_def tick_idle)
qed

lemma example_never_terminates: "shouldTerminate exampleCallbacks m w = False"
  by (simp add: exampleCallbacks_def)

lemma example_noControlCalls: "noControlCalls exampleCallbacks"
  by (simp add: noControlCalls_def default_strategy_no_controls exampleCallbacks_def)

text \<open>
  Claim C4. When \<^verbatim>\<open>shouldTerminate(model)\<close> holds at step entry, the step only sets
  \<^verbatim>\<open>isRunning\<close> to false: the store and the host's queue are as before, so neither
  \<^verbatim>\<open>produceNextGeneration\<close> nor \<^verbatim>\<open>stepFunction\<close> ran and nothing was scheduled. From
  then on \<^verbatim>\<open>isRunning\<close> stays false over any number of further steps, and over any
  sequence of ticks and pauses without a \<^verbatim>\<open>play()\<close>.
\<close>

theorem termination_latch:
  assumes "shouldTerminate cb (model s) (world s)"
  shows "step cb s = s\<lparr>isRunning := False\<rparr>
     \<and> (\<forall>n. isRunning ((step cb ^^ n) (step cb s)) = False)
     \<and> (\<forall>evs. Play \<notin> set evs \<longrightarrow> isRunning (run cb evs (step cb s)) = False)"
proof -
  have st: "step cb s = s\<lparr>isRunning := False\<rparr>"
    using assms by (simp add: step_def)
  then show ?thesis
    by (simp add: step_pow_idle no_play_stays_idle)
qed

theorem termination_latch_witness:
  "shouldTerminate terminatingCallbacks (model runningEngine) (world runningEngine)
   \<and> step terminatingCallbacks runningEngine = runningEngine\<lparr>isRunning := False\<rparr>
   \<and> isRunning ((step terminatingCallbacks ^^ 3) (step terminatingCallbacks runningEngine)) = False
   \<and> isRunning (run terminatingCallbacks [Tick, Pause, Tick]
                   (step terminatingCallbacks runningEngine)) = False"
proof -
  have h: "shouldTerminate terminatingCallbacks (model runningEngine) (world runningEngine)"
    by (simp add: terminatingCallbacks_def runningEngine_def smallWorld_def)
  have "Play \<notin> set [Tick, Pause, Tick]" by simp
  with termination_latch [OF h] h show ?thesis by blast
qed

text \<open>
  Claim C5. After \<^verbatim>\<open>pause()\<close>, any number of steps leave the whole state as it is:
  the engine's model reference, the store with every model object, array and organism, and
  the queue. Fired by the host, each of \<open>n\<close> ticks takes its own request off the queue and
  adds none. This holds whatever \<^verbatim>\<open>shouldTerminate\<close> answers.
\<close>

theorem pause_then_ticks:
  "(step cb ^^ n) (pause s) = pause s
   \<and> run cb (replicate n Tick) (pause s) = (pause s)\<lparr>pending := drop n (pending s)\<rparr>
   \<and> model (run cb (replicate n Tick) (pause s)) = model s
   \<and> world (run cb (replicate n Tick) (pause s)) = world s"
  by (simp add: step_pow_idle ticks_idle pause_def)

text \<open>
  Claim C10. \<^verbatim>\<open>play()\<close> and \<^verbatim>\<open>pause()\<close> leave the engine's model reference and the
  whole store as they are, so \<^verbatim>\<open>populationSize\<close>, \<^verbatim>\<open>generation\<close> and
  \<^verbatim>\<open>population\<close> are unchanged; \<^verbatim>\<open>isRunning\<close> becomes true, respectively false.
  (\<^verbatim>\<open>play()\<close> also queues a step request; \<^verbatim>\<open>pause()\<close> leaves the queue alone.)
\<close>

theorem play_pause_keep_model:
  "model (play s) = model s \<and> world (play s) = world s \<and> isRunning (play s) = True
   \<and> model (pause s) = model s \<and> world (pause s) = world s \<and> isRunning (pause s) = False
   \<and> pending (pause s) = pending s"
  by (simp add: play_def pause_def next_tick_def)

section \<open>Scheduling\<close>




lemma playsOnlyWhenIdle_take:
  "playsOnlyWhenIdle cb evs s \<Longrightarrow> playsOnlyWhenIdle cb (take k evs) s"
proof (induction evs arbitrary: k s)
  case Nil
  then show ?case by simp
next
  case (Cons e evs)
  then show ?case by (cases k) simp_all
qed

lemma single_pending_run:
  assumes np: "noPlayCalls cb"
  shows "playsOnlyWhenIdle cb evs s \<Longrightarrow> length (pending s) \<le> 1 \<Longrightarrow>
     length (pending (run cb evs s)) \<le> 1"
proof (induction evs arbitrary: s)
  case Nil
  then show ?case by simp
next
  case (Cons e evs)
  have "length (pending (apply_event cb e s)) \<le> 1"
  proof (cases e)
    case Play
    with Cons.prems show ?thesis by (simp add: play_fields)
  next
    case Pause
    with Cons.prems show ?thesis by (simp add: pause_fields)
  next
    case Tick
    with Cons.prems tick_pending_le [OF np, of s] show ?thesis by simp
  qed
  with Cons show ?case by simp
qed

text \<open>
  Claim C8, as amended. In every sequence of \<^verbatim>\<open>play()\<close>, \<^verbatim>\<open>pause()\<close> and tick
  firings in which \<^verbatim>\<open>play()\<close> is called only while no step request is pending, and
  with callbacks that never call \<^verbatim>\<open>play()\<close> from inside a tick, at most one step
  request is pending at every moment (after every prefix of the sequence). A fired tick
  takes its own request off the queue and adds at most one; a step that adds one ends with
  that \<^verbatim>\<open>next()\<close>, after its callbacks have run, and the callbacks add none.
\<close>

theorem single_pending_step:
  assumes "playsOnlyWhenIdle cb evs s" and "length (pending s) \<le> 1" and "noPlayCalls cb"
  shows "length (pending (run cb (take k evs) s)) \<le> 1
     \<and> (pending (tick cb t) = tl (pending t)
        \<or> pending (tick cb t) = tl (pending t) @ [AnimationFrame])
     \<and> (step cb t = t\<lparr>isRunning := False\<rparr>
        \<or> step cb t = progressGeneration cb t
        \<or> step cb t = next_tick (runStepFunction cb (progressGeneration cb t)))
     \<and> pending (progressGeneration cb t) = pending t
     \<and> pending (runStepFunction cb (progressGeneration cb t)) = pending t"
  using single_pending_run [OF assms(3) playsOnlyWhenIdle_take [OF assms(1)] assms(2)]
    tick_pending_no_play [OF assms(3), of t] step_shape [of cb t]
  by (simp add: progressGeneration_pending [OF assms(3)] runStepFunction_pending [OF assms(3)])

lemma example_noPlayCalls: "noPlayCalls exampleCallbacks"
  by (rule noControlCalls_noPlayCalls [OF example_noControlCalls])

theorem single_pending_step_witness:
  "playsOnlyWhenIdle exampleCallbacks [Play, Tick, Pause, Tick, Play]
     (constructor exampleCallbacks (Some 4) emptyWorld)
   \<and> length (pending (constructor exampleCallbacks (Some 4) emptyWorld)) \<le> 1
   \<and> noPlayCalls exampleCallbacks
   \<and> length (pending (run exampleCallbacks [Play, Tick, Pause, Tick, Play]
                 (constructor exampleCallbacks (Some 4) emptyWorld))) \<le> 1"
proof -
  note nc = example_noControlCalls
  have h1: "playsOnlyWhenIdle exampleCallbacks [Play, Tick, Pause, Tick, Play]
     (constructor exampleCallbacks (Some 4) emptyWorld)"
    by (simp add: constructor_idle play_fields pause_fields tick_pending [OF nc]
          tick_isRunning [OF nc] example_never_terminates)
  have h2: "length (pending (constructor exampleCallbacks (Some 4) emptyWorld)) \<le> 1"
    by (simp add: constructor_idle)
  from single_pending_step [OF h1 h2 example_noPlayCalls, of 5] h1 h2 example_noPlayCalls
  show ?thesis by simp
qed

text \<open>
  Claim C8 as stated fails: \<^verbatim>\<open>play()\<close> queues a request unconditionally and
  \<^verbatim>\<open>pause()\<close> cancels none, so \<^verbatim>\<open>play(); pause(); play()\<close> before the first tick
  leaves two step requests pending.
\<close>

theorem two_steps_pending:
  "length (pending (run exampleCallbacks [Play, Pause, Play]
             (constructor exampleCallbacks (Some 4) emptyWorld))) = 2"
  by (simp add: constructor_idle play_fields pause_fields)

text \<open>
  The condition on the callbacks is needed: \<^verbatim>\<open>play()\<close> is public, and a step hook that
  calls it (with nothing pending at that moment) ends the tick with two requests pending.
\<close>

lemma replaying_step_pending:
  "isRunning s \<Longrightarrow> pending (step replayingCallbacks s) = pending s @ [AnimationFrame, AnimationFrame]"
proof -
  assume r: "isRunning s"
  have t: "\<not> shouldTerminate replayingCallbacks (model s) (world s)"
    by (simp add: replayingCallbacks_def exampleCallbacks_def)
  have png: "snd (snd (theProduceNextGeneration replayingCallbacks m w)) = []" for m w
    by (rule default_strategy_no_controls) (simp add: replayingCallbacks_def exampleCallbacks_def)
  obtain m' w' cs where g: "theProduceNextGeneration replayingCallbacks (model s) (world s)
      = (m', w', cs)"
    by (cases "theProduceNextGeneration replayingCallbacks (model s) (world s)") auto
  with png [of "model s" "world s"] have cs: "cs = []" by simp
  have pg: "isRunning (progressGeneration replayingCallbacks s)"
    "pending (progressGeneration replayingCallbacks s) = pending s"
    using r by (simp_all add: progressGeneration_def g cs)
  have sf: "stepFunction replayingCallbacks m w = (w, [CallPlay])" for m w
    by (simp add: replayingCallbacks_def)
  show ?thesis
    using r t by (simp add: step_running pg runStepFunction_def sf play_fields next_tick_def)
qed

lemma play_inside_stepFunction:
  "playsOnlyWhenIdle replayingCallbacks [Play, Tick]
     (constructor replayingCallbacks (Some 4) emptyWorld)
   \<and> length (pending (run replayingCallbacks [Play, Tick]
                 (constructor replayingCallbacks (Some 4) emptyWorld))) = 2"
  by (simp add: constructor_idle play_fields tick_def replaying_step_pending)

section \<open>Copy on progress\<close>

lemma crossover_call_frame:
  assumes "crossoverFrame cb" "b \<le> nextOrganism c" "aboveBase b pa" "aboveBase b pb"
    and "crossover cb pa pb c = (r, c')"
  shows "b \<le> nextOrganism c' \<and> (\<forall>a<b. organisms c' a = organisms c a) \<and> b \<le> r"
proof -
  note assms(1) [unfolded crossoverFrame_def, THEN spec [where x = pa],
      THEN spec [where x = pb], THEN spec [where x = c]]
  with assms(5) have f:
    "nextOrganism c \<le> nextOrganism c'"
    "\<forall>a<nextOrganism c. Some a \<noteq> pa \<longrightarrow> Some a \<noteq> pb \<longrightarrow> organisms c' a = organisms c a"
    "Some r = pa \<or> Some r = pb \<or> nextOrganism c \<le> r"
    by simp_all
  have "b \<le> r" using f(3) assms(2,3,4) by (auto simp: aboveBase_def)
  moreover have "\<forall>a<b. organisms c' a = organisms c a"
    using f(2) assms(2,3,4) by (fastforce simp: aboveBase_def split: option.splits)
  ultimately show ?thesis using f(1) assms(2) by simp
qed

lemma mutate_call_frame:
  assumes "mutateFrame cb" "b \<le> nextOrganism c" "aboveBase b x"
    and "mutate cb x c = (r, c')"
  shows "b \<le> nextOrganism c' \<and> (\<forall>a<b. organisms c' a = organisms c a) \<and> b \<le> r"
proof -
  note assms(1) [unfolded mutateFrame_def, THEN spec [where x = x], THEN spec [where x = c]]
  with assms(4) have f:
    "nextOrganism c \<le> nextOrganism c'"
    "\<forall>a<nextOrganism c. Some a \<noteq> x \<longrightarrow> organisms c' a = organisms c a"
    "Some r = x \<or> nextOrganism c \<le> r"
    by simp_all
  have "b \<le> r" using f(3) assms(2,3) by (auto simp: aboveBase_def)
  moreover have "\<forall>a<b. organisms c' a = organisms c a"
    using f(2) assms(2,3) by (fastforce simp: aboveBase_def split: option.splits)
  ultimately show ?thesis using f(1) assms(2) by simp
qed

lemma callTimes_frame:
  assumes "crossoverFrame cb" "aboveBase b pa" "aboveBase b pb"
  shows "b \<le> nextOrganism c \<Longrightarrow> callTimes n (crossover cb pa pb) c = (xs, c') \<Longrightarrow>
     b \<le> nextOrganism c' \<and> (\<forall>a<b. organisms c' a = organisms c a) \<and> (\<forall>x\<in>set xs. b \<le> x)"
proof (induction n arbitrary: c xs c')
  case 0
  then show ?case by simp
next
  case (Suc n)
  obtain r c1 where r: "crossover cb pa pb c = (r, c1)" by (cases "crossover cb pa pb c")
  obtain ys c2 where ys: "callTimes n (crossover cb pa pb) c1 = (ys, c2)"
    by (cases "callTimes n (crossover cb pa pb) c1")
  note f1 = crossover_call_frame [OF assms(1) Suc.prems(1) assms(2,3) r]
  from f1 have "b \<le> nextOrganism c1" by simp
  note f2 = Suc.IH [OF this ys]
  from Suc.prems(2) r ys have "xs = r # ys" "c' = c2" by simp_all
  with f1 f2 show ?case by simp
qed

lemma callOnEach_frame:
  assumes "mutateFrame cb"
  shows "b \<le> nextOrganism c \<Longrightarrow> \<forall>x\<in>set xs. b \<le> x \<Longrightarrow>
     callOnEach (\<lambda>x. mutate cb (Some x)) xs c = (ys, c') \<Longrightarrow>
     b \<le> nextOrganism c' \<and> (\<forall>a<b. organisms c' a = organisms c a) \<and> (\<forall>y\<in>set ys. b \<le> y)"
proof (induction xs arbitrary: c ys c')
  case Nil
  then show ?case by simp
next
  case (Cons x xs)
  obtain r c1 where r: "mutate cb (Some x) c = (r, c1)" by (cases "mutate cb (Some x) c")
  obtain zs c2 where zs: "callOnEach (\<lambda>x. mutate cb (Some x)) xs c1 = (zs, c2)"
    by (cases "callOnEach (\<lambda>x. mutate cb (Some x)) xs c1")
  have "aboveBase b (Some x)" using Cons.prems(2) by (simp add: aboveBase_def)
  note f1 = mutate_call_frame [OF assms Cons.prems(1) this r]
  from f1 have b1: "b \<le> nextOrganism c1" by simp
  from Cons.prems(2) have "\<forall>x\<in>set xs. b \<le> x" by simp
  note f2 = Cons.IH [OF b1 this zs]
  from Cons.prems(3) r zs have "ys = r # zs" "c' = c2" by simp_all
  with f1 f2 show ?case by simp
qed

lemma cloneOrganisms_frame:
  "b \<le> nextOrganism c \<Longrightarrow> \<forall>a a'. memo a = Some a' \<longrightarrow> b \<le> a' \<Longrightarrow>
     cloneOrganisms xs memo c = (ys, c') \<Longrightarrow>
     b \<le> nextOrganism c' \<and> (\<forall>a<b. organisms c' a = organisms c a) \<and> (\<forall>y\<in>set ys. b \<le> y)"
proof (induction xs arbitrary: memo c ys c')
  case Nil
  then show ?case by simp
next
  case (Cons x xs)
  show ?case
  proof (cases "memo x")
    case (Some x')
    obtain zs c2 where zs: "cloneOrganisms xs memo c = (zs, c2)"
      by (cases "cloneOrganisms xs memo c")
    note f = Cons.IH [OF Cons.prems(1,2) zs]
    from Cons.prems(3) Some zs have "ys = x' # zs" "c' = c2" by simp_all
    moreover from Cons.prems(2) Some have "b \<le> x'" by simp
    ultimately show ?thesis using f by simp
  next
    case None
    let ?c1 = "c\<lparr>organisms := (organisms c)(nextOrganism c := organisms c x),
                  nextOrganism := Suc (nextOrganism c)\<rparr>"
    let ?memo = "memo(x \<mapsto> nextOrganism c)"
    obtain zs c2 where zs: "cloneOrganisms xs ?memo ?c1 = (zs, c2)"
      by (cases "cloneOrganisms xs ?memo ?c1")
    have b1: "b \<le> nextOrganism ?c1" using Cons.prems(1) by simp
    have m1: "\<forall>a a'. ?memo a = Some a' \<longrightarrow> b \<le> a'"
      using Cons.prems(1,2) by auto
    note f = Cons.IH [OF b1 m1 zs]
    from Cons.prems(3) None zs have "ys = nextOrganism c # zs" "c' = c2"
      by (simp_all add: Let_def)
    with f Cons.prems(1) show ?thesis by auto
  qed
qed

lemma array_get_aboveBase: "\<forall>x\<in>set xs. b \<le> x \<Longrightarrow> aboveBase b (array_get xs i)"
  by (simp add: array_get_def aboveBase_def)

lemma sortDescending_set: "set (sortDescending f xs) = set xs"
  by (simp add: sortDescending_def)

lemma reproductionSpec_frame:
  assumes cf: "crossoverFrame cb" and mf: "mutateFrame cb"
    and r: "reproductionSpec cb m w = (m', w')"
  shows "m' = nextModel w
     \<and> population (models w' m') = Suc (nextArray w)
     \<and> (\<forall>x<nextModel w. models w' x = models w x)
     \<and> (\<forall>x<nextArray w. arrays w' x = arrays w x)
     \<and> (\<forall>a<nextOrganism (collab w). organisms (collab w') a = organisms (collab w) a)
     \<and> (\<forall>a\<in>set (populationOf w' m'). nextOrganism (collab w) \<le> a)"
proof -
  let ?b = "nextOrganism (collab w)"
  obtain m1 w1 where sc: "structuredClone m w = (m1, w1)"
    by (cases "structuredClone m w")
  note sh = structuredClone_shape [OF sc]
  obtain cl c1 where cl: "cloneOrganisms (arrays w (population (models w m))) Map.empty (collab w) = (cl, c1)"
    by (cases "cloneOrganisms (arrays w (population (models w m))) Map.empty (collab w)")
  have f0: "?b \<le> nextOrganism c1 \<and> (\<forall>a<?b. organisms c1 a = organisms (collab w) a)
      \<and> (\<forall>y\<in>set cl. ?b \<le> y)"
    by (rule cloneOrganisms_frame [OF _ _ cl]) simp_all
  have c1: "collab w1 = c1" and a1: "arrays w1 (nextArray w) = cl"
    and pm1: "population (models w1 m1) = nextArray w"
    using sh cl by simp_all
  define sortedCopy where "sortedCopy = sortDescending (\<lambda>a. calculateFitness cb a c1) cl"
  have ss: "\<forall>x\<in>set sortedCopy. ?b \<le> x" using f0 by (simp add: sortedCopy_def sortDescending_set)
  define pa where "pa = array_get sortedCopy 0"
  define pb where "pb = array_get sortedCopy 1"
  have pab: "aboveBase ?b pa" "aboveBase ?b pb"
    using ss by (simp_all add: pa_def pb_def array_get_aboveBase)
  obtain children c2 where ct: "callTimes (nat (populationSize (models w m)))
      (crossover cb pa pb) c1 = (children, c2)"
    by (cases "callTimes (nat (populationSize (models w m))) (crossover cb pa pb) c1")
  obtain mutated c3 where ce: "callOnEach (\<lambda>x. mutate cb (Some x)) children c2 = (mutated, c3)"
    by (cases "callOnEach (\<lambda>x. mutate cb (Some x)) children c2")
  from f0 have b1: "?b \<le> nextOrganism c1" by simp
  note f1 = callTimes_frame [OF cf pab b1 ct]
  from f1 have b2: "?b \<le> nextOrganism c2" and ch: "\<forall>x\<in>set children. ?b \<le> x" by simp_all
  note f2 = callOnEach_frame [OF mf b2 ch ce]
  have rs: "reproductionSpec cb m w = (m1, w1\<lparr>collab := c3,
             models := (models w1)(m1 :=
               \<lparr>populationSize = populationSize (models w m),
                generation = numberIncrement (generation (models w m)),
                population = nextArray w1\<rparr>),
             arrays := (arrays w1)(nextArray w := sortedCopy, nextArray w1 := mutated),
             nextArray := Suc (nextArray w1)\<rparr>)"
    using ct ce unfolding reproductionSpec_def pa_def pb_def sortedCopy_def
    by (simp add: sc Let_def c1 a1 pm1)
  have res: "m' = m1" "w' = w1\<lparr>collab := c3,
             models := (models w1)(m1 :=
               \<lparr>populationSize = populationSize (models w m),
                generation = numberIncrement (generation (models w m)),
                population = nextArray w1\<rparr>),
             arrays := (arrays w1)(nextArray w := sortedCopy, nextArray w1 := mutated),
             nextArray := Suc (nextArray w1)\<rparr>"
    using r rs by (metis prod.inject)+
  have "\<forall>a<?b. organisms (collab w') a = organisms (collab w) a"
    using f0 f1 f2 by (simp add: res)
  moreover have "\<forall>a\<in>set (populationOf w' m'). ?b \<le> a"
    using f2 by (simp add: res populationOf_def)
  moreover have "\<forall>x<nextModel w. models w' x = models w x"
    using sh by (simp add: res)
  moreover have "\<forall>x<nextArray w. arrays w' x = arrays w x"
    using sh by (simp add: res)
  moreover have "m' = nextModel w" "population (models w' m') = Suc (nextArray w)"
    using sh by (simp_all add: res)
  ultimately show ?thesis by simp
qed

text \<open>
  \<^verbatim>\<open>structuredClone\<close> copies: the clone has the size and generation of the original,
  and its organisms hold, position by position, what the original's organisms hold.
\<close>

lemma cloneOrganisms_keeps:
  "cloneOrganisms xs memo c = (ys, c') \<Longrightarrow>
     nextOrganism c \<le> nextOrganism c' \<and> (\<forall>a<nextOrganism c. organisms c' a = organisms c a)"
proof (induction xs arbitrary: memo c ys c')
  case Nil
  then show ?case by simp
next
  case (Cons x xs)
  show ?case
  proof (cases "memo x")
    case (Some x')
    obtain zs c2 where zs: "cloneOrganisms xs memo c = (zs, c2)"
      by (cases "cloneOrganisms xs memo c")
    from Cons.prems Some zs have "c' = c2" by simp
    with Cons.IH [OF zs] show ?thesis by simp
  next
    case None
    let ?c1 = "c\<lparr>organisms := (organisms c)(nextOrganism c := organisms c x),
                  nextOrganism := Suc (nextOrganism c)\<rparr>"
    obtain zs c2 where zs: "cloneOrganisms xs (memo(x \<mapsto> nextOrganism c)) ?c1 = (zs, c2)"
      by (cases "cloneOrganisms xs (memo(x \<mapsto> nextOrganism c)) ?c1")
    from Cons.prems None zs have "c' = c2" by (simp add: Let_def)
    with Cons.IH [OF zs] show ?thesis by auto
  qed
qed

lemma cloneOrganisms_copies:
  "\<forall>x\<in>set xs. x < b \<Longrightarrow> b \<le> nextOrganism c \<Longrightarrow>
   \<forall>a a'. memo a = Some a' \<longrightarrow>
     a < b \<and> b \<le> a' \<and> a' < nextOrganism c \<and> organisms c a' = organisms c a \<Longrightarrow>
   cloneOrganisms xs memo c = (ys, c') \<Longrightarrow>
     map (organisms c') ys = map (organisms c) xs"
proof (induction xs arbitrary: memo c ys c')
  case Nil
  then show ?case by simp
next
  case (Cons x xs)
  from Cons.prems(1) have xb: "x < b" and xsb: "\<forall>x\<in>set xs. x < b" by simp_all
  show ?case
  proof (cases "memo x")
    case (Some x')
    obtain zs c2 where zs: "cloneOrganisms xs memo c = (zs, c2)"
      by (cases "cloneOrganisms xs memo c")
    from Cons.prems(4) Some zs have eq: "ys = x' # zs" "c' = c2" by simp_all
    from Cons.prems(3) Some have x': "x' < nextOrganism c" "organisms c x' = organisms c x"
      by simp_all
    from cloneOrganisms_keeps [OF zs] x' have "organisms c2 x' = organisms c x" by simp
    moreover note Cons.IH [OF xsb Cons.prems(2,3) zs]
    ultimately show ?thesis by (simp add: eq)
  next
    case None
    let ?a = "nextOrganism c"
    let ?c1 = "c\<lparr>organisms := (organisms c)(?a := organisms c x), nextOrganism := Suc ?a\<rparr>"
    let ?memo = "memo(x \<mapsto> ?a)"
    obtain zs c2 where zs: "cloneOrganisms xs ?memo ?c1 = (zs, c2)"
      by (cases "cloneOrganisms xs ?memo ?c1")
    from Cons.prems(4) None zs have eq: "ys = ?a # zs" "c' = c2" by (simp_all add: Let_def)
    have b1: "b \<le> nextOrganism ?c1" using Cons.prems(2) by simp
    have m1: "\<forall>a a'. ?memo a = Some a' \<longrightarrow>
        a < b \<and> b \<le> a' \<and> a' < nextOrganism ?c1 \<and> organisms ?c1 a' = organisms ?c1 a"
    proof (intro allI impI)
      fix a a'
      assume h: "?memo a = Some a'"
      show "a < b \<and> b \<le> a' \<and> a' < nextOrganism ?c1 \<and> organisms ?c1 a' = organisms ?c1 a"
      proof (cases "a = x")
        case True
        with h xb Cons.prems(2) show ?thesis by auto
      next
        case False
        with h have "memo a = Some a'" by simp
        with Cons.prems(3) have "a < b" "b \<le> a'" "a' < ?a" "organisms c a' = organisms c a"
          by blast+
        with Cons.prems(2) show ?thesis by auto
      qed
    qed
    from Cons.IH [OF xsb b1 m1 zs] have "map (organisms c2) zs = map (organisms ?c1) xs" .
    also have "\<dots> = map (organisms c) xs"
      using xsb Cons.prems(2) by auto
    finally have tl: "map (organisms c2) zs = map (organisms c) xs" .
    from cloneOrganisms_keeps [OF zs] have "organisms c2 ?a = organisms ?c1 ?a" by simp
    then have hd: "organisms c2 ?a = organisms c x" by simp
    from hd tl show ?thesis by (simp add: eq)
  qed
qed

lemma structuredClone_copies:
  assumes "allocated w m" and "structuredClone m w = (m1, w1)"
  shows "populationSize (models w1 m1) = populationSize (models w m)
     \<and> generation (models w1 m1) = generation (models w m)
     \<and> map (organisms (collab w1)) (populationOf w1 m1)
         = map (organisms (collab w)) (populationOf w m)"
proof -
  note sh = structuredClone_shape [OF assms(2)]
  obtain ys c where cl:
    "cloneOrganisms (populationOf w m) Map.empty (collab w) = (ys, c)"
    by (cases "cloneOrganisms (populationOf w m) Map.empty (collab w)")
  from assms(1) have "\<forall>x\<in>set (populationOf w m). x < nextOrganism (collab w)"
    by (simp add: allocated_def)
  then have "map (organisms c) ys = map (organisms (collab w)) (populationOf w m)"
    by (rule cloneOrganisms_copies [OF _ _ _ cl]) simp_all
  with sh cl show ?thesis by (simp add: populationOf_def)
qed

text \<open>
  One run of the default strategy on \<open>smallWorld\<close>, computed: the organisms 0 and 1 are
  cloned into 2 and 3, the clones are sorted into \<open>[3, 2]\<close>, and both children are copies
  of the fitter clone 3.
\<close>

lemma small_generation:
  "case defaultProduceNextGeneration exampleCallbacks 0 smallWorld of (m', w') \<Rightarrow>
     generation (models w' m') = 2
   \<and> map (\<lambda>a. genes (organisms (collab w') a)) (populationOf w' m') = [[1], [1]]
   \<and> populationOf w' m' = [4, 5]
   \<and> arrays w' 1 = [3, 2]"
  by (simp add: default_strategy_eq reproductionSpec_def structuredClone_def newArray_def
        newModelObject_def smallWorld_def exampleCallbacks_def newOrganism_def
        sortDescending_def populationOf_def array_get_def Let_def numeral_2_eq_2
        numberIncrement_exact)

text \<open>
  Claim C9. With callbacks that keep the contract of section 4.3 (\<open>crossoverFrame\<close>,
  \<open>mutateFrame\<close>) and an input model made of objects of the store, the default
  reproduction strategy leaves the input model object, its population array and every
  organism of its population unchanged, and the model it returns is another object, with
  another array, whose organisms are none of the input's.
\<close>

theorem default_strategy_no_aliasing:
  assumes "crossoverFrame cb" and "mutateFrame cb" and "allocated w m"
  shows "case defaultProduceNextGeneration cb m w of (m', w') \<Rightarrow>
      models w' m = models w m
    \<and> arrays w' (population (models w m)) = arrays w (population (models w m))
    \<and> (\<forall>a\<in>set (populationOf w m). organisms (collab w') a = organisms (collab w) a)
    \<and> m' \<noteq> m
    \<and> population (models w' m') \<noteq> population (models w m)
    \<and> set (populationOf w' m') \<inter> set (populationOf w m) = {}"
proof -
  obtain m' w' where r: "reproductionSpec cb m w = (m', w')"
    by (cases "reproductionSpec cb m w")
  note f = reproductionSpec_frame [OF assms(1,2) r]
  from assms(3) have al: "m < nextModel w" "population (models w m) < nextArray w"
    "\<forall>a \<in> set (populationOf w m). a < nextOrganism (collab w)"
    by (simp_all add: allocated_def)
  have "set (populationOf w' m') \<inter> set (populationOf w m) = {}"
    using f al(3) by fastforce
  moreover have "\<forall>a\<in>set (populationOf w m). organisms (collab w') a = organisms (collab w) a"
    using f al(3) by simp
  moreover have "models w' m = models w m"
    "arrays w' (population (models w m)) = arrays w (population (models w m))"
    "m' \<noteq> m" "population (models w' m') \<noteq> population (models w m)"
    using f al(1,2) by auto
  ultimately show ?thesis
    by (simp add: default_strategy_eq r)
qed

lemma example_crossoverFrame: "crossoverFrame exampleCallbacks"
  by (auto simp: crossoverFrame_def exampleCallbacks_def newOrganism_def split: option.splits)

lemma example_mutateFrame: "mutateFrame exampleCallbacks"
  by (auto simp: mutateFrame_def exampleCallbacks_def newOrganism_def split: option.splits)

lemma smallWorld_allocated: "allocated smallWorld 0"
  by (simp add: allocated_def smallWorld_def populationOf_def)

theorem default_strategy_no_aliasing_witness:
  "crossoverFrame exampleCallbacks \<and> mutateFrame exampleCallbacks \<and> allocated smallWorld 0
   \<and> (case defaultProduceNextGeneration exampleCallbacks 0 smallWorld of (m', w') \<Rightarrow>
        models w' 0 = \<lparr>populationSize = 2, generation = 1, population = 0\<rparr>
      \<and> arrays w' 0 = [0, 1]
      \<and> organisms (collab w') 0 = \<lparr>genes = [0], mutationChance = 0\<rparr>
      \<and> organisms (collab w') 1 = \<lparr>genes = [1], mutationChance = 0\<rparr>
      \<and> m' \<noteq> 0
      \<and> population (models w' m') \<noteq> 0
      \<and> set (populationOf w' m') \<inter> {0, 1} = {})"
  using default_strategy_no_aliasing
    [OF example_crossoverFrame example_mutateFrame smallWorld_allocated]
    example_crossoverFrame example_mutateFrame smallWorld_allocated
  by (simp add: smallWorld_def populationOf_def split: prod.splits)

section \<open>No reset\<close>



end
